theory Spec2Isabelle
  imports Main "HOL-Library.AList" "HOL-Library.Char_ord" "HOL-Library.List_Lexorder"
    "HOL-Library.Multiset"
begin

section \<open>Clojure values\<close>

text \<open>
  The Segment model (\<^verbatim>\<open>src/metabase/models/segment.clj\<close>) is dynamically typed: its
  preconditions test the run-time type of each argument. The values that reach it are
  \<^verbatim>\<open>nil\<close>, booleans, integers, strings, keywords, maps with keyword keys (a keyword
  \<^verbatim>\<open>:name\<close> is the string \<open>''name''\<close>), and the one delay the file creates:
  \<^verbatim>\<open>(delay (when creator_id (db/sel :one User :id creator_id)))\<close>, a closure over
  \<^verbatim>\<open>creator_id\<close>, kept as \<open>VDelay creator_id\<close>.
\<close>

datatype val =
    VNil
  | VBool bool
  | VInt int
  | VStr string
  | VKeyword string
  | VMap "(string \<times> val) list"
  | VDelay val

type_synonym cmap = "(string \<times> val) list"

text \<open>\<^verbatim>\<open>(get m k)\<close> and the destructuring \<^verbatim>\<open>{:keys [...]}\<close>: a missing key reads as nil.\<close>

definition get_key :: "cmap \<Rightarrow> string \<Rightarrow> val" where
  "get_key m k = (case map_of m k of None \<Rightarrow> VNil | Some v \<Rightarrow> v)"

text \<open>\<^verbatim>\<open>(assoc m k v)\<close> on a map or on nil (\<^verbatim>\<open>(assoc nil k v)\<close> is \<^verbatim>\<open>{k v}\<close>).\<close>

definition assoc :: "cmap option \<Rightarrow> string \<Rightarrow> val \<Rightarrow> cmap" where
  "assoc m k v = (case m of None \<Rightarrow> [(k, v)] | Some al \<Rightarrow> AList.update k v al)"

definition assoc_all :: "(string \<times> val) list \<Rightarrow> cmap \<Rightarrow> cmap" where
  "assoc_all kvs m = fold (\<lambda>(k, v). AList.update k v) kvs m"

fun integer_p :: "val \<Rightarrow> bool" where
  "integer_p (VInt i) = True"
| "integer_p v = False"

fun string_p :: "val \<Rightarrow> bool" where
  "string_p (VStr s) = True"
| "string_p v = False"

fun map_p :: "val \<Rightarrow> bool" where
  "map_p (VMap m) = True"
| "map_p v = False"

fun keyword_p :: "val \<Rightarrow> bool" where
  "keyword_p (VKeyword k) = True"
| "keyword_p v = False"

fun delay_p :: "val \<Rightarrow> bool" where
  "delay_p (VDelay c) = True"
| "delay_p v = False"

text \<open>Clojure truthiness: everything but \<^verbatim>\<open>nil\<close> and \<^verbatim>\<open>false\<close>.\<close>

fun truthy :: "val \<Rightarrow> bool" where
  "truthy VNil = False"
| "truthy (VBool b) = b"
| "truthy v = True"

text \<open>\<^verbatim>\<open>(m/filter-vals pred m)\<close>: the entries of \<open>m\<close> whose value satisfies \<open>pred\<close>.\<close>

definition filter_vals :: "(val \<Rightarrow> bool) \<Rightarrow> cmap \<Rightarrow> cmap" where
  "filter_vals pred m = filter (\<lambda>(k, v). pred v) m"

section \<open>The world the model runs in\<close>

text \<open>
  The functions of the file read and write the application database, publish events and
  read the run mode. The state they thread is explicit: the rows of the three tables they
  touch, the log of published events (topic and payload, oldest first), the clock the
  store stamps rows with, and the run mode \<^verbatim>\<open>(config/is-prod?)\<close>.
  A precondition failure (\<^verbatim>\<open>:pre\<close>) throws \<^verbatim>\<open>AssertionError\<close>; the hook
  \<^verbatim>\<open>pre-cascade-delete\<close> throws \<^verbatim>\<open>Exception\<close> with a message. Every operation returns
  its outcome together with the world it leaves behind, so that what a failing call did
  to the state is part of its result.
\<close>

datatype exn = AssertionError | Exception string

record world =
  segment_table :: "cmap list"
  revision_table :: "cmap list"
  user_table :: "cmap list"
  published :: "(string \<times> cmap option) list"
  clock :: int
  is_prod :: bool

type_synonym 'a result = "(exn + 'a) \<times> world"

subsection \<open>Collaborators that are not part of the file\<close>

text \<open>
  Modelled from the spec: \<^verbatim>\<open>metabase.db\<close> (\<^verbatim>\<open>sel\<close>, \<^verbatim>\<open>ins\<close>, \<^verbatim>\<open>upd\<close>,
  \<^verbatim>\<open>exists?\<close>, \<^verbatim>\<open>cascade-delete\<close>) is not among the sources. A table is the list of
  its rows in insertion order; a row is the map from column to value. A selection keeps
  the rows whose columns equal the given values.
\<close>

definition matches :: "(string \<times> val) list \<Rightarrow> cmap \<Rightarrow> bool" where
  "matches conds row = list_all (\<lambda>(k, v). map_of row k = Some v) conds"

text \<open>
  Modelled from the spec: \<^verbatim>\<open>(db/sel :one User :id creator_id)\<close>, the user row with
  that id, or nil.
\<close>

definition sel_one_User :: "world \<Rightarrow> val \<Rightarrow> val" where
  "sel_one_User w uid =
     (case find (matches [(''id'', uid)]) (user_table w) of
        None \<Rightarrow> VNil
      | Some u \<Rightarrow> VMap u)"

text \<open>
  Modelled from the spec: \<^verbatim>\<open>u/jdbc-clob->str\<close> is not among the sources. It turns the
  text the database hands back into the string that was stored; the table of the model
  keeps the stored value itself, which the conversion leaves as it is.
\<close>

definition jdbc_clob_to_str :: "val \<Rightarrow> val" where
  "jdbc_clob_to_str description = description"

text \<open>
  Forcing a delay runs its body against the database of that moment:
  \<^verbatim>\<open>(when creator_id (db/sel :one User :id creator_id))\<close>.
\<close>

fun deref :: "world \<Rightarrow> val \<Rightarrow> val" where
  "deref w (VDelay creator_id) = (if truthy creator_id then sel_one_User w creator_id else VNil)"
| "deref w v = v"

text \<open>
  Modelled from the spec: \<^verbatim>\<open>(hydrate obj :creator)\<close> (\<^verbatim>\<open>metabase.models.hydrate\<close>)
  resolves the lazily-resolved reference under the key; nil stays nil, and a sequence is
  hydrated element by element.
\<close>

definition hydrate1 :: "world \<Rightarrow> cmap \<Rightarrow> string \<Rightarrow> cmap" where
  "hydrate1 w m k =
     (if delay_p (get_key m k) then AList.update k (deref w (get_key m k)) m else m)"

definition hydrate :: "world \<Rightarrow> cmap option \<Rightarrow> string \<Rightarrow> cmap option" where
  "hydrate w obj k = map_option (\<lambda>m. hydrate1 w m k) obj"

definition hydrate_many :: "world \<Rightarrow> cmap list \<Rightarrow> string \<Rightarrow> cmap list" where
  "hydrate_many w objs k = map (\<lambda>m. hydrate1 w m k) objs"

text \<open>
  Modelled from the spec: \<^verbatim>\<open>(events/publish-event topic object)\<close> notifies the
  observers and returns the object; the model appends to the log.
\<close>

definition publish_event :: "world \<Rightarrow> string \<Rightarrow> cmap option \<Rightarrow> cmap option \<times> world" where
  "publish_event w topic object = (object, w\<lparr>published := published w @ [(topic, object)]\<rparr>)"

section \<open>The Segment entity\<close>

text \<open>
  Modelled from the spec: \<^verbatim>\<open>(types :definition :json)\<close> (line 27) has the store
  serialize the definition on write and parse it on read; the table of the model keeps
  the value itself, so a definition reads back as it was written.
\<close>

text \<open>\<^verbatim>\<open>post-select\<close> (segment.clj, lines 30-34).\<close>

definition post_select :: "cmap \<Rightarrow> cmap" where
  "post_select segment =
     (let creator_id = get_key segment ''creator_id'';
          description = get_key segment ''description''
      in AList.update ''description'' (jdbc_clob_to_str description)
           (AList.update ''creator'' (VDelay creator_id) segment))"

text \<open>
  Modelled from the spec: selections on the Segment table. Every row read goes through
  \<^verbatim>\<open>post-select\<close>. \<^verbatim>\<open>(k/order :name :ASC)\<close> sorts by the name column; names are
  strings, compared character by character.
\<close>

definition sel_one_Segment :: "world \<Rightarrow> (string \<times> val) list \<Rightarrow> cmap option" where
  "sel_one_Segment w conds = map_option post_select (find (matches conds) (segment_table w))"

definition name_key :: "cmap \<Rightarrow> string" where
  "name_key row = (case map_of row ''name'' of Some (VStr s) \<Rightarrow> s | _ \<Rightarrow> [])"

definition sel_many_Segment_by_name :: "world \<Rightarrow> (string \<times> val) list \<Rightarrow> cmap list" where
  "sel_many_Segment_by_name w conds =
     map post_select (sort_key name_key (filter (matches conds) (segment_table w)))"

text \<open>
  Modelled from the spec: \<^verbatim>\<open>(db/exists? Segment ...)\<close>.
\<close>

definition exists_Segment :: "world \<Rightarrow> (string \<times> val) list \<Rightarrow> bool" where
  "exists_Segment w conds = list_ex (matches conds) (segment_table w)"

text \<open>
  Modelled from the spec: the entity is \<^verbatim>\<open>timestamped\<close> (line 28), so the store
  maintains \<^verbatim>\<open>created_at\<close> and \<^verbatim>\<open>updated_at\<close>: both are stamped on insert, and
  \<^verbatim>\<open>updated_at\<close> on every update.
\<close>

definition pre_insert :: "world \<Rightarrow> (string \<times> val) list \<Rightarrow> (string \<times> val) list" where
  "pre_insert w kvs = kvs @ [(''created_at'', VInt (clock w)), (''updated_at'', VInt (clock w))]"

definition pre_update :: "world \<Rightarrow> (string \<times> val) list \<Rightarrow> (string \<times> val) list" where
  "pre_update w kvs = kvs @ [(''updated_at'', VInt (clock w))]"

text \<open>
  Modelled from the spec: \<^verbatim>\<open>(db/ins Segment ...)\<close>. The store assigns an id that no
  row has (one more than the largest id in the table), appends the row and returns it as
  selected.
\<close>

definition row_ids :: "cmap list \<Rightarrow> int list" where
  "row_ids rows =
     List.map_filter (\<lambda>r. case map_of r ''id'' of Some (VInt i) \<Rightarrow> Some i | _ \<Rightarrow> None) rows"

definition fresh_id :: "cmap list \<Rightarrow> int" where
  "fresh_id rows = 1 + fold max (row_ids rows) 0"

definition ins_Segment :: "world \<Rightarrow> (string \<times> val) list \<Rightarrow> cmap option \<times> world" where
  "ins_Segment w kvs =
     (let new_id = fresh_id (segment_table w);
          row = AList.update ''id'' (VInt new_id) (assoc_all (pre_insert w kvs) []);
          w' = w\<lparr>segment_table := segment_table w @ [row]\<rparr>
      in (sel_one_Segment w' [(''id'', VInt new_id)], w'))"

text \<open>
  Modelled from the spec: \<^verbatim>\<open>(db/upd Segment id ...)\<close> writes the given columns of the
  rows with that id.
\<close>

definition upd_Segment :: "world \<Rightarrow> val \<Rightarrow> (string \<times> val) list \<Rightarrow> world" where
  "upd_Segment w id' kvs =
     w\<lparr>segment_table :=
         map (\<lambda>row. if matches [(''id'', id')] row then assoc_all (pre_update w kvs) row else row)
             (segment_table w)\<rparr>"

text \<open>
  Modelled from the spec: \<^verbatim>\<open>(db/cascade-delete revision/Revision ...)\<close> removes the
  selected revision rows.
\<close>

definition cascade_delete_Revision :: "world \<Rightarrow> (string \<times> val) list \<Rightarrow> world" where
  "cascade_delete_Revision w conds =
     w\<lparr>revision_table := filter (\<lambda>r. \<not> matches conds r) (revision_table w)\<rparr>"

text \<open>\<^verbatim>\<open>pre-cascade-delete\<close> (segment.clj, lines 36-41).\<close>

definition pre_cascade_delete :: "world \<Rightarrow> cmap \<Rightarrow> unit result" where
  "pre_cascade_delete w segment =
     (let id' = get_key segment ''id''
      in if is_prod w
         then (Inl (Exception ''deleting a Segment is not supported.''), w)
         else (Inr (), cascade_delete_Revision w [(''model'', VStr ''Segment''), (''model_id'', id')]))"

text \<open>
  Modelled from the spec: \<^verbatim>\<open>(db/cascade-delete Segment ...)\<close>, the physical deletion.
  It runs the entity's \<^verbatim>\<open>pre-cascade-delete\<close> on each selected Segment and then
  removes the selected rows; an exception of the hook ends the call there.
\<close>

fun run_pre_cascade_delete :: "world \<Rightarrow> cmap list \<Rightarrow> unit result" where
  "run_pre_cascade_delete w [] = (Inr (), w)"
| "run_pre_cascade_delete w (segment # rest) =
     (case pre_cascade_delete w segment of
        (Inl e, w') \<Rightarrow> (Inl e, w')
      | (Inr u, w') \<Rightarrow> run_pre_cascade_delete w' rest)"

definition cascade_delete_Segment :: "world \<Rightarrow> (string \<times> val) list \<Rightarrow> unit result" where
  "cascade_delete_Segment w conds =
     (case run_pre_cascade_delete w (map post_select (filter (matches conds) (segment_table w))) of
        (Inl e, w') \<Rightarrow> (Inl e, w')
      | (Inr u, w') \<Rightarrow>
          (Inr (), w'\<lparr>segment_table := filter (\<lambda>r. \<not> matches conds r) (segment_table w')\<rparr>))"

subsection \<open>Access policy\<close>

text \<open>
  Modelled from the spec: the macro \<^verbatim>\<open>extend-ICanReadWrite\<close>
  (\<^verbatim>\<open>metabase.models.interface\<close>) is not among the sources. Line 21 and line 43 give
  Segments \<^verbatim>\<open>:read :always, :write :superuser\<close>: anyone may read, and a caller may
  write iff the caller is a superuser.
\<close>

record caller =
  caller_id :: int
  superuser :: bool

definition can_read :: "caller \<Rightarrow> cmap \<Rightarrow> bool" where
  "can_read c segment = True"

definition can_write :: "caller \<Rightarrow> cmap \<Rightarrow> bool" where
  "can_write c segment = superuser c"

section \<open>Persistence functions\<close>

text \<open>\<^verbatim>\<open>create-segment\<close> (segment.clj, lines 48-65).\<close>

definition create_segment ::
  "world \<Rightarrow> val \<Rightarrow> val \<Rightarrow> val \<Rightarrow> val \<Rightarrow> val \<Rightarrow> cmap option result" where
  "create_segment w table_id name description creator_id definition =
     (if \<not> (integer_p table_id \<and> string_p name \<and> integer_p creator_id \<and> map_p definition)
      then (Inl AssertionError, w)
      else
        let (segment, w1) = ins_Segment w
               [(''table_id'', table_id),
                (''creator_id'', creator_id),
                (''name'', name),
                (''description'', description),
                (''is_active'', VBool True),
                (''definition'', definition)];
            (ev, w2) = publish_event w1 ''segment-create'' segment
        in (Inr (hydrate w2 ev ''creator''), w2))"

text \<open>\<^verbatim>\<open>exists-segment?\<close> (segment.clj, lines 67-72).\<close>

definition exists_segment :: "world \<Rightarrow> val \<Rightarrow> bool result" where
  "exists_segment w id' =
     (if \<not> integer_p id' then (Inl AssertionError, w)
      else (Inr (exists_Segment w [(''id'', id'), (''is_active'', VBool True)]), w))"

text \<open>\<^verbatim>\<open>retrieve-segment\<close> (segment.clj, lines 74-79).\<close>

definition retrieve_segment :: "world \<Rightarrow> val \<Rightarrow> cmap option result" where
  "retrieve_segment w id' =
     (if \<not> integer_p id' then (Inl AssertionError, w)
      else (Inr (hydrate w (sel_one_Segment w [(''id'', id')]) ''creator''), w))"

text \<open>\<^verbatim>\<open>retrieve-segments\<close> (segment.clj, lines 81-92), with two arguments and with one.\<close>

definition retrieve_segments :: "world \<Rightarrow> val \<Rightarrow> val \<Rightarrow> cmap list result" where
  "retrieve_segments w table_id state =
     (if \<not> (integer_p table_id \<and> keyword_p state) then (Inl AssertionError, w)
      else (Inr (hydrate_many w
                   (if VKeyword ''all'' = state
                    then sel_many_Segment_by_name w [(''table_id'', table_id)]
                    else sel_many_Segment_by_name w
                           [(''table_id'', table_id),
                            (''is_active'', VBool (if VKeyword ''active'' = state then True else False))])
                   ''creator''), w))"

definition retrieve_segments1 :: "world \<Rightarrow> val \<Rightarrow> cmap list result" where
  "retrieve_segments1 w table_id = retrieve_segments w table_id (VKeyword ''active'')"

text \<open>
  \<^verbatim>\<open>update-segment\<close> (segment.clj, lines 94-113). The first argument is the map that is
  destructured into \<^verbatim>\<open>id\<close>, \<^verbatim>\<open>name\<close>, \<^verbatim>\<open>description\<close>, \<^verbatim>\<open>definition\<close> and
  \<^verbatim>\<open>revision_message\<close>.
\<close>

definition update_segment :: "world \<Rightarrow> cmap \<Rightarrow> val \<Rightarrow> cmap option result" where
  "update_segment w body user_id =
     (let id' = get_key body ''id'';
          name = get_key body ''name'';
          description = get_key body ''description'';
          definition = get_key body ''definition'';
          revision_message = get_key body ''revision_message''
      in if \<not> (integer_p id' \<and> string_p name \<and> map_p definition \<and> integer_p user_id
                \<and> string_p revision_message)
         then (Inl AssertionError, w)
         else
           let w1 = upd_Segment w id'
                      [(''name'', name), (''description'', description), (''definition'', definition)]
           in case retrieve_segment w1 id' of
                (Inl e, w2) \<Rightarrow> (Inl e, w2)
              | (Inr segment, w2) \<Rightarrow>
                  let (ev, w3) = publish_event w2 ''segment-update''
                        (Some (AList.update ''revision_message'' revision_message
                                 (assoc segment ''actor_id'' user_id)))
                  in (Inr segment, w3))"

text \<open>\<^verbatim>\<open>delete-segment\<close> (segment.clj, lines 115-131).\<close>

definition delete_segment :: "world \<Rightarrow> val \<Rightarrow> val \<Rightarrow> cmap option result" where
  "delete_segment w id' user_id =
     (if \<not> integer_p id' then (Inl AssertionError, w)
      else
        let w1 = upd_Segment w id' [(''is_active'', VBool False)]
        in case retrieve_segment w1 id' of
             (Inl e, w2) \<Rightarrow> (Inl e, w2)
           | (Inr segment, w2) \<Rightarrow>
               let (ev, w3) = publish_event w2 ''segment-delete''
                     (Some (assoc segment ''actor_id'' user_id))
               in (Inr segment, w3))"

section \<open>Revisions\<close>

text \<open>
  \<^verbatim>\<open>serialize-instance\<close> (segment.clj, lines 137-140). Its first two arguments are
  ignored by the source; \<^verbatim>\<open>(into {})\<close> turns the record into the plain map with the
  same entries.
\<close>

definition serialize_instance :: "cmap \<Rightarrow> cmap" where
  "serialize_instance instance =
     filter_vals (\<lambda>v. \<not> delay_p v)
       (AList.delete ''updated_at'' (AList.delete ''created_at'' instance))"

section \<open>Vocabulary of the statements\<close>

text \<open>
  The instance a hydrated read hands out for a stored row: \<^verbatim>\<open>post-select\<close>, then
  \<^verbatim>\<open>(hydrate ... :creator)\<close>, as \<^verbatim>\<open>retrieve-segment\<close> and \<^verbatim>\<open>retrieve-segments\<close>
  compose them.
\<close>

definition as_retrieved :: "world \<Rightarrow> cmap \<Rightarrow> cmap" where
  "as_retrieved w row = hydrate1 w (post_select row) ''creator''"

text \<open>
  The row \<^verbatim>\<open>create-segment\<close> has the store insert: the six columns of lines 58-63,
  the two timestamps and the assigned id.
\<close>

definition new_row :: "world \<Rightarrow> val \<Rightarrow> val \<Rightarrow> val \<Rightarrow> val \<Rightarrow> val \<Rightarrow> cmap" where
  "new_row w table_id name description creator_id definition =
     [(''table_id'', table_id), (''creator_id'', creator_id), (''name'', name),
      (''description'', description), (''is_active'', VBool True), (''definition'', definition),
      (''created_at'', VInt (clock w)), (''updated_at'', VInt (clock w)),
      (''id'', VInt (fresh_id (segment_table w)))]"

text \<open>
  The specification's reading of the three listing states: \<^verbatim>\<open>active\<close> admits the rows
  whose flag is true, \<^verbatim>\<open>deleted\<close> those whose flag is false, \<^verbatim>\<open>all\<close> every row.
\<close>

definition state_admits :: "string \<Rightarrow> cmap \<Rightarrow> bool" where
  "state_admits state row \<longleftrightarrow>
     state = ''all''
     \<or> (state = ''active'' \<and> map_of row ''is_active'' = Some (VBool True))
     \<or> (state = ''deleted'' \<and> map_of row ''is_active'' = Some (VBool False))"

subsection \<open>A small database to run the model on\<close>

definition example_row :: "int \<Rightarrow> int \<Rightarrow> string \<Rightarrow> bool \<Rightarrow> cmap" where
  "example_row i t n a =
     [(''table_id'', VInt t), (''creator_id'', VInt 7), (''name'', VStr n),
      (''description'', VNil), (''is_active'', VBool a),
      (''definition'', VMap [(''field'', VStr ''status'')]),
      (''created_at'', VInt 50), (''updated_at'', VInt 50), (''id'', VInt i)]"

definition example_world :: world where
  "example_world =
     \<lparr>segment_table =
        [example_row 1 1 ''b'' False, example_row 2 1 ''a'' True, example_row 3 2 ''c'' True],
      revision_table =
        [[(''model'', VStr ''Segment''), (''model_id'', VInt 1)],
         [(''model'', VStr ''Card''), (''model_id'', VInt 1)],
         [(''model'', VStr ''Segment''), (''model_id'', VInt 2)]],
      user_table = [[(''id'', VInt 7), (''is_superuser'', VBool False)]],
      published = [],
      clock = 100,
      is_prod = True\<rparr>"

section \<open>Reading maps and rows\<close>

lemma get_key_update: "get_key (AList.update k v m) k' = (if k' = k then v else get_key m k')"
  by (simp add: get_key_def update_conv')

lemma get_key_Some: "map_of m k = Some v \<Longrightarrow> get_key m k = v"
  by (simp add: get_key_def)

lemma integer_p_iff: "integer_p v \<longleftrightarrow> (\<exists>i. v = VInt i)"
  by (cases v) simp_all

lemma map_of_assoc_all_other:
  "k \<notin> fst ` set kvs \<Longrightarrow> map_of (assoc_all kvs m) k = map_of m k"
  unfolding assoc_all_def
  by (induction kvs arbitrary: m) (auto simp add: update_conv')

lemma map_of_pre_update_other:
  "k \<notin> fst ` set kvs \<Longrightarrow> k \<noteq> ''updated_at'' \<Longrightarrow>
   map_of (assoc_all (pre_update w kvs) row) k = map_of row k"
  by (simp add: pre_update_def map_of_assoc_all_other)

lemma map_of_post_select:
  "k \<noteq> ''creator'' \<Longrightarrow> k \<noteq> ''description'' \<Longrightarrow> map_of (post_select r) k = map_of r k"
  by (simp add: post_select_def update_conv')

lemma get_key_post_select:
  "get_key (post_select r) k =
     (if k = ''description'' then jdbc_clob_to_str (get_key r ''description'')
      else if k = ''creator'' then VDelay (get_key r ''creator_id'')
      else get_key r k)"
  by (simp add: post_select_def get_key_update)

lemma map_of_hydrate1: "k' \<noteq> k \<Longrightarrow> map_of (hydrate1 w m k) k' = map_of m k'"
  by (simp add: hydrate1_def update_conv')

lemma deref_no_delay: "\<not> delay_p v \<Longrightarrow> deref w v = v"
  by (cases v) simp_all

lemma get_key_hydrate1:
  "get_key (hydrate1 w m k) k' = (if k' = k then deref w (get_key m k) else get_key m k')"
  by (simp add: hydrate1_def get_key_update deref_no_delay)

lemma not_delay_sel_one_User: "\<not> delay_p (sel_one_User w u)"
  by (simp add: sel_one_User_def split: option.splits)

lemma get_key_as_retrieved:
  "get_key (as_retrieved w r) k =
     (if k = ''creator''
      then (if truthy (get_key r ''creator_id'') then sel_one_User w (get_key r ''creator_id'') else VNil)
      else if k = ''description'' then jdbc_clob_to_str (get_key r ''description'')
      else get_key r k)"
  by (simp add: as_retrieved_def get_key_hydrate1 get_key_post_select)

lemma map_of_as_retrieved:
  "k \<noteq> ''creator'' \<Longrightarrow> k \<noteq> ''description'' \<Longrightarrow> map_of (as_retrieved w r) k = map_of r k"
  by (simp add: as_retrieved_def map_of_hydrate1 map_of_post_select)

lemma name_key_as_retrieved: "name_key (as_retrieved w r) = name_key r"
  by (simp add: name_key_def map_of_as_retrieved)

lemma deref_cong_world: "user_table w' = user_table w \<Longrightarrow> deref w' v = deref w v"
  by (cases v) (simp_all add: sel_one_User_def)

lemma as_retrieved_cong_world:
  "user_table w' = user_table w \<Longrightarrow> as_retrieved w' r = as_retrieved w r"
  using deref_cong_world[of w' w] by (simp add: as_retrieved_def hydrate1_def)

lemma matches_id: "matches [(''id'', v)] r \<longleftrightarrow> map_of r ''id'' = Some v"
  by (simp add: matches_def)

lemma matches_id_fun: "matches [(''id'', v)] = (\<lambda>r. map_of r ''id'' = Some v)"
  by (simp add: fun_eq_iff matches_def)

lemma matches_table: "matches [(''table_id'', t)] r \<longleftrightarrow> map_of r ''table_id'' = Some t"
  by (simp add: matches_def)

lemma matches_table_active:
  "matches [(''table_id'', t), (''is_active'', a)] r \<longleftrightarrow>
     map_of r ''table_id'' = Some t \<and> map_of r ''is_active'' = Some a"
  by (simp add: matches_def)

section \<open>Reads\<close>

lemma retrieve_segment_int:
  "retrieve_segment w (VInt i) =
     (Inr (map_option (as_retrieved w) (find (\<lambda>r. map_of r ''id'' = Some (VInt i)) (segment_table w))), w)"
  by (simp add: retrieve_segment_def hydrate_def sel_one_Segment_def as_retrieved_def[abs_def]
      matches_id_fun option.map_comp comp_def)

lemma hydrate_many_sel_many:
  "hydrate_many w (sel_many_Segment_by_name w conds) ''creator'' =
     map (as_retrieved w) (sort_key name_key (filter (matches conds) (segment_table w)))"
  by (simp add: hydrate_many_def sel_many_Segment_by_name_def as_retrieved_def)

lemma sorted_listing:
  "sorted (map name_key (map (as_retrieved w) (sort_key name_key rows)))"
proof -
  have "name_key \<circ> as_retrieved w = name_key"
    by (simp add: fun_eq_iff name_key_as_retrieved)
  then show ?thesis by simp
qed

lemma retrieve_segments_listing:
  "retrieve_segments w (VInt t) (VKeyword k) =
     (Inr (map (as_retrieved w) (sort_key name_key
        (filter (\<lambda>r. map_of r ''table_id'' = Some (VInt t) \<and>
                     (k = ''all'' \<or> map_of r ''is_active'' = Some (VBool (k = ''active''))))
                (segment_table w)))), w)"
  by (auto simp add: retrieve_segments_def hydrate_many_sel_many matches_table matches_table_active
      intro!: arg_cong[where f="map (as_retrieved w)"] arg_cong[where f="sort_key name_key"] filter_cong)

lemma creator_of_listed:
  assumes "s \<in> set (map (as_retrieved w) rows)"
  shows "get_key s ''creator'' =
           (if truthy (get_key s ''creator_id'') then sel_one_User w (get_key s ''creator_id'') else VNil)"
  using assms by (auto simp add: get_key_as_retrieved)

section \<open>Listing the Segments of a table\<close>

text \<open>
  Claim C5. For every table id, \<^verbatim>\<open>retrieve-segments\<close> returns exactly the Segments of
  that table that the requested state admits (\<^verbatim>\<open>:active\<close>: the active ones, which is
  also what the call with no state returns; \<^verbatim>\<open>:deleted\<close>: the inactive ones;
  \<^verbatim>\<open>:all\<close>: every one), each as many times as the table holds it, ordered by name
  ascending, and each with its creator resolved to the user row of its
  \<^verbatim>\<open>creator_id\<close>. The call leaves the world as it was.
\<close>

theorem retrieve_segments_by_state:
  assumes "state \<in> {''active'', ''deleted'', ''all''}"
  shows "retrieve_segments1 w (VInt table_id) = retrieve_segments w (VInt table_id) (VKeyword ''active'')
    \<and> (\<exists>segs. retrieve_segments w (VInt table_id) (VKeyword state) = (Inr segs, w)
          \<and> mset segs = image_mset (as_retrieved w)
               (filter_mset (\<lambda>row. map_of row ''table_id'' = Some (VInt table_id) \<and> state_admits state row)
                  (mset (segment_table w)))
          \<and> sorted (map name_key segs)
          \<and> (\<forall>s\<in>set segs. get_key s ''creator'' =
                (if truthy (get_key s ''creator_id'')
                 then sel_one_User w (get_key s ''creator_id'') else VNil)))"
proof -
  let ?P = "\<lambda>r. map_of r ''table_id'' = Some (VInt table_id) \<and>
                 (state = ''all'' \<or> map_of r ''is_active'' = Some (VBool (state = ''active'')))"
  let ?segs = "map (as_retrieved w) (sort_key name_key (filter ?P (segment_table w)))"
  have same: "?P = (\<lambda>row. map_of row ''table_id'' = Some (VInt table_id) \<and> state_admits state row)"
    using assms by (auto simp add: state_admits_def fun_eq_iff)
  have "retrieve_segments w (VInt table_id) (VKeyword state) = (Inr ?segs, w)"
    by (rule retrieve_segments_listing)
  moreover have "mset ?segs = image_mset (as_retrieved w) (filter_mset ?P (mset (segment_table w)))"
    by simp
  moreover have "sorted (map name_key ?segs)"
    by (rule sorted_listing)
  moreover have "\<forall>s\<in>set ?segs. get_key s ''creator'' =
                (if truthy (get_key s ''creator_id'')
                 then sel_one_User w (get_key s ''creator_id'') else VNil)"
    using creator_of_listed by blast
  ultimately show ?thesis
    unfolding same by (simp add: retrieve_segments1_def)
qed

theorem retrieve_segments_by_state_witness:
  "''all'' \<in> {''active'', ''deleted'', ''all''}
   \<and> (\<exists>segs. retrieve_segments example_world (VInt 1) (VKeyword ''all'') = (Inr segs, example_world)
         \<and> map name_key segs = [''a'', ''b'']
         \<and> sorted (map name_key segs)
         \<and> map (\<lambda>s. get_key s ''creator'') segs =
             [VMap [(''id'', VInt 7), (''is_superuser'', VBool False)],
              VMap [(''id'', VInt 7), (''is_superuser'', VBool False)]])"
proof -
  have e: "retrieve_segments example_world (VInt 1) (VKeyword ''all'') =
     (Inr [as_retrieved example_world (example_row 2 1 ''a'' True),
           as_retrieved example_world (example_row 1 1 ''b'' False)], example_world)"
    by code_simp
  have n: "map name_key [as_retrieved example_world (example_row 2 1 ''a'' True),
           as_retrieved example_world (example_row 1 1 ''b'' False)] = [''a'', ''b'']"
    by code_simp
  have u: "sel_one_User example_world (VInt 7) = VMap [(''id'', VInt 7), (''is_superuser'', VBool False)]"
    by code_simp
  have c: "get_key (as_retrieved example_world (example_row i t n a)) ''creator_id'' = VInt 7" for i t n a
    by (simp add: get_key_as_retrieved) (simp add: get_key_def example_row_def)
  have m: "''all'' \<in> {''active'', ''deleted'', ''all''}"
    by simp
  show ?thesis
    using retrieve_segments_by_state [OF m, of example_world 1] e n u c
    by auto
qed

text \<open>
  Claim C10. A keyword state other than \<^verbatim>\<open>:active\<close> and \<^verbatim>\<open>:all\<close>, documented or
  not, does not fail: the call returns what it returns for \<^verbatim>\<open>:deleted\<close>, namely the
  Segments of the table whose \<^verbatim>\<open>is_active\<close> is false.
\<close>

theorem retrieve_segments_unrecognized_state:
  assumes "state \<noteq> ''active''" and "state \<noteq> ''all''"
  shows "retrieve_segments w table_id (VKeyword state) = retrieve_segments w table_id (VKeyword ''deleted'')
    \<and> (\<exists>segs. retrieve_segments w (VInt t) (VKeyword state) = (Inr segs, w)
          \<and> mset segs = image_mset (as_retrieved w)
               (filter_mset (\<lambda>row. map_of row ''table_id'' = Some (VInt t) \<and>
                                    map_of row ''is_active'' = Some (VBool False))
                  (mset (segment_table w)))
          \<and> (\<forall>s\<in>set segs. get_key s ''is_active'' = VBool False))"
proof -
  have "retrieve_segments w table_id (VKeyword state) = retrieve_segments w table_id (VKeyword ''deleted'')"
    using assms by (simp add: retrieve_segments_def)
  moreover have "retrieve_segments w (VInt t) (VKeyword state) =
     (Inr (map (as_retrieved w) (sort_key name_key
        (filter (\<lambda>row. map_of row ''table_id'' = Some (VInt t) \<and>
                       map_of row ''is_active'' = Some (VBool False)) (segment_table w)))), w)"
    using assms by (simp add: retrieve_segments_listing)
  moreover have "\<forall>s\<in>set (map (as_retrieved w) (sort_key name_key
        (filter (\<lambda>row. map_of row ''table_id'' = Some (VInt t) \<and>
                       map_of row ''is_active'' = Some (VBool False)) (segment_table w)))).
       get_key s ''is_active'' = VBool False"
    by (auto simp add: get_key_as_retrieved get_key_Some)
  ultimately show ?thesis
    by simp
qed

theorem retrieve_segments_unrecognized_state_witness:
  "''foo'' \<noteq> ''active'' \<and> ''foo'' \<noteq> ''all''
   \<and> retrieve_segments example_world (VInt 1) (VKeyword ''foo'') =
       (Inr [as_retrieved example_world (example_row 1 1 ''b'' False)], example_world)
   \<and> retrieve_segments example_world (VInt 1) (VKeyword ''foo'') =
       retrieve_segments example_world (VInt 1) (VKeyword ''deleted'')"
proof -
  have a: "''foo'' \<noteq> ''active''" and b: "''foo'' \<noteq> ''all''"
    by simp_all
  have e: "retrieve_segments example_world (VInt 1) (VKeyword ''deleted'') =
       (Inr [as_retrieved example_world (example_row 1 1 ''b'' False)], example_world)"
    by code_simp
  show ?thesis
    using retrieve_segments_unrecognized_state [OF a b, of example_world "VInt 1" 1] e
    by simp
qed

section \<open>Creating a Segment\<close>

lemma fold_max_ge: "(a::int) \<le> fold max xs a \<and> (\<forall>x\<in>set xs. x \<le> fold max xs a)"
proof (induction xs arbitrary: a)
  case Nil
  show ?case by simp
next
  case (Cons y ys)
  have "max y a \<le> fold max ys (max y a) \<and> (\<forall>x\<in>set ys. x \<le> fold max ys (max y a))"
    by (rule Cons.IH)
  then show ?case by auto
qed

lemma fresh_id_gt:
  assumes "r \<in> set rows" and "map_of r ''id'' = Some (VInt i)"
  shows "i < fresh_id rows"
proof -
  have "i \<in> set (row_ids rows)"
    using assms by (force simp add: row_ids_def List.map_filter_def image_iff)
  then have "i \<le> fold max (row_ids rows) 0"
    using fold_max_ge by blast
  then show ?thesis by (simp add: fresh_id_def)
qed

lemma find_append_last:
  "\<forall>r\<in>set rows. \<not> P r \<Longrightarrow> P x \<Longrightarrow> find P (rows @ [x]) = Some x"
  by (induction rows) simp_all

lemma find_fresh_id:
  assumes "map_of row ''id'' = Some (VInt (fresh_id rows))"
  shows "find (\<lambda>r. map_of r ''id'' = Some (VInt (fresh_id rows))) (rows @ [row]) = Some row"
proof -
  have "\<forall>r\<in>set rows. \<not> map_of r ''id'' = Some (VInt (fresh_id rows))"
    using fresh_id_gt by fastforce
  then show ?thesis
    using assms by (simp add: find_append_last)
qed

lemma map_of_new_row_id:
  "map_of (new_row w t n d c df) ''id'' = Some (VInt (fresh_id (segment_table w)))"
  by (simp add: new_row_def)

lemma ins_Segment_new_row:
  "ins_Segment w [(''table_id'', t), (''creator_id'', c), (''name'', n), (''description'', d),
                  (''is_active'', VBool True), (''definition'', df)]
   = (Some (post_select (new_row w t n d c df)),
      w\<lparr>segment_table := segment_table w @ [new_row w t n d c df]\<rparr>)"
proof -
  have row: "AList.update ''id'' (VInt (fresh_id (segment_table w)))
          (assoc_all (pre_insert w [(''table_id'', t), (''creator_id'', c), (''name'', n),
                  (''description'', d), (''is_active'', VBool True), (''definition'', df)]) [])
        = new_row w t n d c df"
    by (simp add: assoc_all_def pre_insert_def new_row_def)
  show ?thesis
    unfolding ins_Segment_def Let_def row
    by (simp add: sel_one_Segment_def matches_id_fun find_fresh_id map_of_new_row_id)
qed

lemma create_segment_valid:
  assumes "integer_p t" "string_p n" "integer_p c" "map_p df"
  shows "create_segment w t n d c df =
           (Inr (Some (as_retrieved w (new_row w t n d c df))),
            w\<lparr>segment_table := segment_table w @ [new_row w t n d c df],
              published := published w @
                [(''segment-create'', Some (post_select (new_row w t n d c df)))]\<rparr>)"
proof -
  let ?row = "new_row w t n d c df"
  let ?w2 = "w\<lparr>segment_table := segment_table w @ [?row],
              published := published w @ [(''segment-create'', Some (post_select ?row))]\<rparr>"
  have "hydrate1 ?w2 (post_select ?row) ''creator'' = as_retrieved w ?row"
    using as_retrieved_cong_world[of ?w2 w ?row] by (simp add: as_retrieved_def)
  then show ?thesis
    using assms
    by (simp add: create_segment_def ins_Segment_new_row publish_event_def hydrate_def)
qed

lemma create_segment_invalid:
  assumes "\<not> (integer_p t \<and> string_p n \<and> integer_p c \<and> map_p df)"
  shows "create_segment w t n d c df = (Inl AssertionError, w)"
  using assms by (simp add: create_segment_def)

lemma get_key_new_row:
  "get_key (new_row w t n d c df) ''table_id'' = t"
  "get_key (new_row w t n d c df) ''creator_id'' = c"
  "get_key (new_row w t n d c df) ''name'' = n"
  "get_key (new_row w t n d c df) ''description'' = d"
  "get_key (new_row w t n d c df) ''is_active'' = VBool True"
  "get_key (new_row w t n d c df) ''definition'' = df"
  "get_key (new_row w t n d c df) ''id'' = VInt (fresh_id (segment_table w))"
  by (simp_all add: new_row_def get_key_def)

text \<open>
  Claim C4. For all valid inputs (table id and creator id integers, name a string,
  definition a map), \<^verbatim>\<open>create-segment\<close> returns a Segment with an integer id, and
  \<^verbatim>\<open>retrieve-segment\<close> of that id, in the world the creation leaves, returns a Segment
  whose \<^verbatim>\<open>is_active\<close> is true and whose \<^verbatim>\<open>table_id\<close>, \<^verbatim>\<open>creator_id\<close>,
  \<^verbatim>\<open>name\<close>, \<^verbatim>\<open>description\<close> and \<^verbatim>\<open>definition\<close> are the values passed to create;
  its creator is resolved: it is the user row of the creator id, not a pending delay.
\<close>

theorem create_then_retrieve:
  assumes "integer_p table_id" and "string_p name" and "integer_p creator_id" and "map_p definition"
    and "create_segment w table_id name description creator_id definition = (res, w1)"
  shows "\<exists>created i. res = Inr (Some created) \<and> get_key created ''id'' = VInt i
    \<and> (\<exists>seg. retrieve_segment w1 (VInt i) = (Inr (Some seg), w1)
          \<and> get_key seg ''id'' = VInt i
          \<and> get_key seg ''is_active'' = VBool True
          \<and> get_key seg ''table_id'' = table_id
          \<and> get_key seg ''creator_id'' = creator_id
          \<and> get_key seg ''name'' = name
          \<and> get_key seg ''description'' = description
          \<and> get_key seg ''definition'' = definition
          \<and> get_key seg ''creator'' = sel_one_User w1 creator_id
          \<and> \<not> delay_p (get_key seg ''creator''))"
proof -
  let ?row = "new_row w table_id name description creator_id definition"
  let ?i = "fresh_id (segment_table w)"
  have w1: "w1 = w\<lparr>segment_table := segment_table w @ [?row],
                   published := published w @ [(''segment-create'', Some (post_select ?row))]\<rparr>"
    and res: "res = Inr (Some (as_retrieved w ?row))"
    using assms create_segment_valid[of table_id name creator_id "definition" w description]
    by simp_all
  have seg_tab: "segment_table w1 = segment_table w @ [?row]"
    by (simp add: w1)
  have "user_table w1 = user_table w"
    by (simp add: w1)
  then have same: "as_retrieved w1 ?row = as_retrieved w ?row"
    by (rule as_retrieved_cong_world)
  have retr: "retrieve_segment w1 (VInt ?i) = (Inr (Some (as_retrieved w1 ?row)), w1)"
    by (simp add: retrieve_segment_int seg_tab find_fresh_id map_of_new_row_id)
  have truthy: "truthy creator_id"
    using assms(3) by (cases creator_id) simp_all
  have fields: "get_key (as_retrieved w1 ?row) ''id'' = VInt ?i"
    "get_key (as_retrieved w1 ?row) ''is_active'' = VBool True"
    "get_key (as_retrieved w1 ?row) ''table_id'' = table_id"
    "get_key (as_retrieved w1 ?row) ''creator_id'' = creator_id"
    "get_key (as_retrieved w1 ?row) ''name'' = name"
    "get_key (as_retrieved w1 ?row) ''description'' = description"
    "get_key (as_retrieved w1 ?row) ''definition'' = definition"
    "get_key (as_retrieved w1 ?row) ''creator'' = sel_one_User w1 creator_id"
    using truthy by (simp_all add: get_key_as_retrieved get_key_new_row jdbc_clob_to_str_def)
  have "\<not> delay_p (get_key (as_retrieved w1 ?row) ''creator'')"
    by (simp add: fields not_delay_sel_one_User)
  then show ?thesis
    using res retr fields same by auto
qed

theorem create_then_retrieve_witness:
  "integer_p (VInt 1) \<and> string_p (VStr ''Active Users'') \<and> integer_p (VInt 7)
   \<and> map_p (VMap [(''field'', VStr ''status'')])
   \<and> (\<exists>seg. retrieve_segment
                (snd (create_segment example_world (VInt 1) (VStr ''Active Users'') VNil (VInt 7)
                        (VMap [(''field'', VStr ''status'')])))
                (VInt 4)
              = (Inr (Some seg),
                 snd (create_segment example_world (VInt 1) (VStr ''Active Users'') VNil (VInt 7)
                        (VMap [(''field'', VStr ''status'')])))
         \<and> get_key seg ''is_active'' = VBool True
         \<and> get_key seg ''name'' = VStr ''Active Users''
         \<and> get_key seg ''creator'' = VMap [(''id'', VInt 7), (''is_superuser'', VBool False)])"
proof -
  let ?c = "create_segment example_world (VInt 1) (VStr ''Active Users'') VNil (VInt 7)
              (VMap [(''field'', VStr ''status'')])"
  have c: "?c = (fst ?c, snd ?c)"
    by simp
  have i: "get_key (the (projr (fst ?c))) ''id'' = VInt 4"
    by code_simp
  have u: "sel_one_User (snd ?c) (VInt 7) = VMap [(''id'', VInt 7), (''is_superuser'', VBool False)]"
    by code_simp
  have p: "integer_p (VInt 1)" "string_p (VStr ''Active Users'')" "integer_p (VInt 7)"
    "map_p (VMap [(''field'', VStr ''status'')])"
    by simp_all
  show ?thesis
    using create_then_retrieve [OF p c] i u
    by auto
qed

text \<open>
  Claim C2, as amended. \<^verbatim>\<open>create-segment\<close> fails exactly when the table id or the
  creator id is not an integer, the name is not a string or the definition is not a map.
  The failure is the assertion error of the precondition, and it leaves the world as it
  was: no row, no event, no revision. The name may be any string, the empty one too: a
  call that passes the four checks inserts one row, publishes one \<^verbatim>\<open>segment-create\<close>
  event and writes no revision itself.
\<close>

theorem create_segment_validation:
  "(\<not> (integer_p table_id \<and> string_p name \<and> integer_p creator_id \<and> map_p definition) \<longrightarrow>
      create_segment w table_id name description creator_id definition = (Inl AssertionError, w))
   \<and> (integer_p table_id \<and> string_p name \<and> integer_p creator_id \<and> map_p definition \<longrightarrow>
      (\<exists>seg w1. create_segment w table_id name description creator_id definition = (Inr (Some seg), w1)
         \<and> segment_table w1 =
             segment_table w @ [new_row w table_id name description creator_id definition]
         \<and> published w1 =
             published w @
               [(''segment-create'',
                 Some (post_select (new_row w table_id name description creator_id definition)))]
         \<and> revision_table w1 = revision_table w))"
  by (simp add: create_segment_invalid create_segment_valid)

theorem create_segment_validation_witness:
  "\<not> (integer_p (VInt 1) \<and> string_p (VInt 5) \<and> integer_p (VInt 7) \<and> map_p (VMap []))
   \<and> create_segment example_world (VInt 1) (VInt 5) VNil (VInt 7) (VMap [])
       = (Inl AssertionError, example_world)
   \<and> (integer_p (VInt 1) \<and> string_p (VStr []) \<and> integer_p (VInt 7) \<and> map_p (VMap []))
   \<and> (\<exists>seg w1. create_segment example_world (VInt 1) (VStr []) VNil (VInt 7) (VMap [])
                  = (Inr (Some seg), w1)
         \<and> length (segment_table w1) = 4 \<and> length (published w1) = 1)"
proof -
  have l: "length (segment_table example_world) = 3" "published example_world = []"
    by (simp_all add: example_world_def)
  show ?thesis
    using create_segment_validation [of "VInt 1" "VInt 5" "VInt 7" "VMap []" example_world VNil]
      create_segment_validation [of "VInt 1" "VStr []" "VInt 7" "VMap []" example_world VNil] l
    by auto
qed

theorem create_segment_empty_name_counterexample:
  "\<not> isl (fst (create_segment example_world (VInt 1) (VStr []) VNil (VInt 7) (VMap [])))
   \<and> segment_table (snd (create_segment example_world (VInt 1) (VStr []) VNil (VInt 7) (VMap [])))
       = segment_table example_world @
           [[(''table_id'', VInt 1), (''creator_id'', VInt 7), (''name'', VStr []),
             (''description'', VNil), (''is_active'', VBool True), (''definition'', VMap []),
             (''created_at'', VInt 100), (''updated_at'', VInt 100), (''id'', VInt 4)]]
   \<and> map fst (published (snd (create_segment example_world (VInt 1) (VStr []) VNil (VInt 7) (VMap []))))
       = [''segment-create'']"
  by code_simp

section \<open>Updating and soft-deleting a Segment\<close>

lemma upd_Segment_table:
  "segment_table (upd_Segment w (VInt i) kvs) =
     map (\<lambda>row. if map_of row ''id'' = Some (VInt i) then assoc_all (pre_update w kvs) row else row)
       (segment_table w)"
  by (simp add: upd_Segment_def matches_id)

lemma upd_Segment_rest:
  "revision_table (upd_Segment w v kvs) = revision_table w"
  "user_table (upd_Segment w v kvs) = user_table w"
  "published (upd_Segment w v kvs) = published w"
  "clock (upd_Segment w v kvs) = clock w"
  "is_prod (upd_Segment w v kvs) = is_prod w"
  by (simp_all add: upd_Segment_def)

lemma find_id_upd:
  assumes "''id'' \<notin> fst ` set kvs"
  shows "find (\<lambda>r. map_of r ''id'' = Some (VInt i))
           (map (\<lambda>row. if map_of row ''id'' = Some (VInt i) then assoc_all (pre_update w kvs) row else row)
              rows)
         = map_option (assoc_all (pre_update w kvs)) (find (\<lambda>r. map_of r ''id'' = Some (VInt i)) rows)"
  using assms by (induction rows) (simp_all add: map_of_pre_update_other)

lemma retrieve_after_upd:
  assumes "''id'' \<notin> fst ` set kvs"
  shows "retrieve_segment (upd_Segment w (VInt i) kvs) (VInt i) =
     (Inr (map_option (\<lambda>r. as_retrieved w (assoc_all (pre_update w kvs) r))
             (find (\<lambda>r. map_of r ''id'' = Some (VInt i)) (segment_table w))),
      upd_Segment w (VInt i) kvs)"
proof -
  have "as_retrieved (upd_Segment w (VInt i) kvs) = as_retrieved w"
    using as_retrieved_cong_world[of "upd_Segment w (VInt i) kvs" w]
    by (simp add: fun_eq_iff upd_Segment_rest)
  then show ?thesis
    using assms
    by (simp add: retrieve_segment_int upd_Segment_table find_id_upd option.map_comp comp_def)
qed

lemma update_segment_invalid:
  assumes "\<not> (integer_p (get_key body ''id'') \<and> string_p (get_key body ''name'') \<and>
              map_p (get_key body ''definition'') \<and> integer_p user_id \<and>
              string_p (get_key body ''revision_message''))"
  shows "update_segment w body user_id = (Inl AssertionError, w)"
  using assms by (auto simp add: update_segment_def Let_def)

lemma update_segment_valid:
  assumes "get_key body ''id'' = VInt i" and "string_p (get_key body ''name'')"
    and "map_p (get_key body ''definition'')" and "integer_p user_id"
    and "string_p (get_key body ''revision_message'')"
  shows "update_segment w body user_id =
     (let kvs = [(''name'', get_key body ''name''), (''description'', get_key body ''description''),
                 (''definition'', get_key body ''definition'')];
          segment = map_option (\<lambda>r. as_retrieved w (assoc_all (pre_update w kvs) r))
                      (find (\<lambda>r. map_of r ''id'' = Some (VInt i)) (segment_table w))
      in (Inr segment,
          (upd_Segment w (VInt i) kvs)
            \<lparr>published := published w @
               [(''segment-update'',
                 Some (AList.update ''revision_message'' (get_key body ''revision_message'')
                         (assoc segment ''actor_id'' user_id)))]\<rparr>))"
  using assms
  by (simp add: update_segment_def Let_def retrieve_after_upd publish_event_def upd_Segment_rest)

lemma delete_segment_int:
  "delete_segment w (VInt i) user_id =
     (let kvs = [(''is_active'', VBool False)];
          segment = map_option (\<lambda>r. as_retrieved w (assoc_all (pre_update w kvs) r))
                      (find (\<lambda>r. map_of r ''id'' = Some (VInt i)) (segment_table w))
      in (Inr segment,
          (upd_Segment w (VInt i) kvs)
            \<lparr>published := published w @
               [(''segment-delete'', Some (assoc segment ''actor_id'' user_id))]\<rparr>))"
  by (simp add: delete_segment_def Let_def retrieve_after_upd publish_event_def upd_Segment_rest)

lemma delete_segment_not_int:
  "\<not> integer_p v \<Longrightarrow> delete_segment w v user_id = (Inl AssertionError, w)"
  by (simp add: delete_segment_def)

text \<open>
  Claim C6, as amended. \<^verbatim>\<open>update-segment\<close> checks that the id and the user id are
  integers, the name a string, the definition a map and the revision message a string;
  of the checks of \<^verbatim>\<open>create-segment\<close> it shares those on name and definition (it
  takes no table id and no creator id). A call that fails a check, so every call whose
  revision message is not a string, fails with the assertion error of the precondition
  and leaves the world as it was. The revision message may be any string, the empty one
  too: a call that passes the five checks does not fail.
\<close>

theorem update_segment_validation:
  "(\<not> (integer_p (get_key body ''id'') \<and> string_p (get_key body ''name'') \<and>
        map_p (get_key body ''definition'') \<and> integer_p user_id \<and>
        string_p (get_key body ''revision_message'')) \<longrightarrow>
      update_segment w body user_id = (Inl AssertionError, w))
   \<and> (\<not> string_p (get_key body ''revision_message'') \<longrightarrow>
      update_segment w body user_id = (Inl AssertionError, w))
   \<and> (integer_p (get_key body ''id'') \<and> string_p (get_key body ''name'') \<and>
      map_p (get_key body ''definition'') \<and> integer_p user_id \<and>
      string_p (get_key body ''revision_message'') \<longrightarrow>
      \<not> isl (fst (update_segment w body user_id)))"
proof -
  have "\<not> isl (fst (update_segment w body user_id))"
    if ok: "integer_p (get_key body ''id'')" "string_p (get_key body ''name'')"
      "map_p (get_key body ''definition'')" "integer_p user_id"
      "string_p (get_key body ''revision_message'')"
  proof -
    obtain i where "get_key body ''id'' = VInt i"
      using ok(1) by (auto simp add: integer_p_iff)
    then show ?thesis
      using ok by (simp add: update_segment_valid Let_def)
  qed
  then show ?thesis
    using update_segment_invalid[of body user_id w] by blast
qed

theorem update_segment_validation_witness:
  "\<not> string_p (get_key [(''id'', VInt 2), (''name'', VStr ''a2''), (''definition'', VMap []),
                        (''revision_message'', VNil)] ''revision_message'')
   \<and> update_segment example_world
        [(''id'', VInt 2), (''name'', VStr ''a2''), (''definition'', VMap []),
         (''revision_message'', VNil)] (VInt 7) = (Inl AssertionError, example_world)
   \<and> string_p (get_key [(''id'', VInt 2), (''name'', VStr ''a2''), (''definition'', VMap []),
                        (''revision_message'', VStr [])] ''revision_message'')
   \<and> \<not> isl (fst (update_segment example_world
        [(''id'', VInt 2), (''name'', VStr ''a2''), (''definition'', VMap []),
         (''revision_message'', VStr [])] (VInt 7)))"
  using update_segment_validation
      [of "[(''id'', VInt 2), (''name'', VStr ''a2''), (''definition'', VMap []),
            (''revision_message'', VNil)]" "VInt 7" example_world]
    update_segment_validation
      [of "[(''id'', VInt 2), (''name'', VStr ''a2''), (''definition'', VMap []),
            (''revision_message'', VStr [])]" "VInt 7" example_world]
  by (simp add: get_key_def)

theorem update_segment_empty_message_counterexample:
  "\<not> isl (fst (update_segment example_world
        [(''id'', VInt 2), (''name'', VStr ''a2''), (''definition'', VMap []),
         (''revision_message'', VStr [])] (VInt 7)))
   \<and> segment_table (snd (update_segment example_world
        [(''id'', VInt 2), (''name'', VStr ''a2''), (''definition'', VMap []),
         (''revision_message'', VStr [])] (VInt 7)))
      = [example_row 1 1 ''b'' False,
         [(''table_id'', VInt 1), (''creator_id'', VInt 7), (''name'', VStr ''a2''),
          (''description'', VNil), (''is_active'', VBool True), (''definition'', VMap []),
          (''created_at'', VInt 50), (''updated_at'', VInt 100), (''id'', VInt 2)],
         example_row 3 2 ''c'' True]
   \<and> segment_table (snd (update_segment example_world
        [(''id'', VInt 2), (''name'', VStr ''a2''), (''definition'', VMap []),
         (''revision_message'', VStr [])] (VInt 7))) \<noteq> segment_table example_world"
  by code_simp

lemma update_segment_table:
  "segment_table (snd (update_segment w body user_id)) = segment_table w
   \<or> (\<exists>i. segment_table (snd (update_segment w body user_id)) =
         map (\<lambda>row. if map_of row ''id'' = Some (VInt i)
                     then assoc_all (pre_update w
                            [(''name'', get_key body ''name''),
                             (''description'', get_key body ''description''),
                             (''definition'', get_key body ''definition'')]) row
                     else row)
           (segment_table w))"
proof (cases "integer_p (get_key body ''id'') \<and> string_p (get_key body ''name'') \<and>
              map_p (get_key body ''definition'') \<and> integer_p user_id \<and>
              string_p (get_key body ''revision_message'')")
  case False
  then show ?thesis
    by (simp add: update_segment_invalid)
next
  case True
  then obtain i where "get_key body ''id'' = VInt i"
    by (auto simp add: integer_p_iff)
  then have "segment_table (snd (update_segment w body user_id)) =
         map (\<lambda>row. if map_of row ''id'' = Some (VInt i)
                     then assoc_all (pre_update w
                            [(''name'', get_key body ''name''),
                             (''description'', get_key body ''description''),
                             (''definition'', get_key body ''definition'')]) row
                     else row)
           (segment_table w)"
    using True by (simp add: update_segment_valid Let_def upd_Segment_table)
  then show ?thesis
    by blast
qed

text \<open>
  Claim C7. An \<^verbatim>\<open>update-segment\<close> call, whatever its arguments and its outcome, keeps
  every stored Segment row in its place and leaves its \<^verbatim>\<open>id\<close>, \<^verbatim>\<open>table_id\<close>,
  \<^verbatim>\<open>creator_id\<close>, \<^verbatim>\<open>is_active\<close> and \<^verbatim>\<open>created_at\<close> as they were; indeed every
  column but \<^verbatim>\<open>name\<close>, \<^verbatim>\<open>description\<close> and \<^verbatim>\<open>definition\<close>, which the call
  writes, and \<^verbatim>\<open>updated_at\<close>, which the store stamps on an update.
\<close>

theorem update_segment_frame:
  assumes "update_segment w body user_id = (res, w1)"
  shows "length (segment_table w1) = length (segment_table w)
    \<and> (\<forall>j<length (segment_table w).
          map_of (segment_table w1 ! j) ''id'' = map_of (segment_table w ! j) ''id''
        \<and> map_of (segment_table w1 ! j) ''table_id'' = map_of (segment_table w ! j) ''table_id''
        \<and> map_of (segment_table w1 ! j) ''creator_id'' = map_of (segment_table w ! j) ''creator_id''
        \<and> map_of (segment_table w1 ! j) ''is_active'' = map_of (segment_table w ! j) ''is_active''
        \<and> map_of (segment_table w1 ! j) ''created_at'' = map_of (segment_table w ! j) ''created_at''
        \<and> (\<forall>k. k \<notin> {''name'', ''description'', ''definition'', ''updated_at''} \<longrightarrow>
               map_of (segment_table w1 ! j) k = map_of (segment_table w ! j) k))"
proof -
  let ?kvs = "[(''name'', get_key body ''name''), (''description'', get_key body ''description''),
               (''definition'', get_key body ''definition'')]"
  have w1: "w1 = snd (update_segment w body user_id)"
    using assms by simp
  have other: "map_of (assoc_all (pre_update w ?kvs) row) k = map_of row k"
    if "k \<notin> {''name'', ''description'', ''definition'', ''updated_at''}" for row k
    using that by (simp add: map_of_pre_update_other)
  have len: "length (segment_table w1) = length (segment_table w)"
    using update_segment_table[of w body user_id] by (auto simp add: w1)
  have frame: "map_of (segment_table w1 ! j) k = map_of (segment_table w ! j) k"
    if "j < length (segment_table w)"
      and "k \<notin> {''name'', ''description'', ''definition'', ''updated_at''}" for j k
    using update_segment_table[of w body user_id] that other[of k]
    by (auto simp add: w1)
  show ?thesis
    using len frame by simp
qed

theorem update_segment_frame_witness:
  "map_of (segment_table (snd (update_segment example_world
             [(''id'', VInt 2), (''name'', VStr ''a2''), (''definition'', VMap []),
              (''revision_message'', VStr ''renamed'')] (VInt 7))) ! 1) ''created_at''
     = Some (VInt 50)
   \<and> map_of (segment_table (snd (update_segment example_world
             [(''id'', VInt 2), (''name'', VStr ''a2''), (''definition'', VMap []),
              (''revision_message'', VStr ''renamed'')] (VInt 7))) ! 1) ''name''
     = Some (VStr ''a2'')
   \<and> (1::nat) < length (segment_table example_world)"
proof -
  let ?u = "update_segment example_world
             [(''id'', VInt 2), (''name'', VStr ''a2''), (''definition'', VMap []),
              (''revision_message'', VStr ''renamed'')] (VInt 7)"
  have u: "?u = (fst ?u, snd ?u)"
    by simp
  have l: "(1::nat) < length (segment_table example_world)"
    by (simp add: example_world_def)
  have c: "map_of (segment_table example_world ! 1) ''created_at'' = Some (VInt 50)"
    by (simp add: example_world_def example_row_def)
  have n: "map_of (segment_table (snd ?u) ! 1) ''name'' = Some (VStr ''a2'')"
    by code_simp
  show ?thesis
    using update_segment_frame [OF u] l c n by auto
qed

lemma sel_one_Segment_id:
  assumes "sel_one_Segment w [(''id'', VInt i)] = Some s"
  obtains r where "find (\<lambda>r. map_of r ''id'' = Some (VInt i)) (segment_table w) = Some r"
    and "s = post_select r"
  using assms by (auto simp add: sel_one_Segment_def matches_id_fun)

lemma get_key_soft_deleted:
  "get_key (as_retrieved w (assoc_all (pre_update w [(''is_active'', VBool False)]) r)) ''is_active''
     = VBool False"
  "get_key (as_retrieved w (assoc_all (pre_update w [(''is_active'', VBool False)]) r)) ''updated_at''
     = VInt (clock w)"
  by (simp_all add: get_key_as_retrieved assoc_all_def pre_update_def get_key_update)

lemma get_key_updated:
  "get_key (as_retrieved w (assoc_all (pre_update w
      [(''name'', n), (''description'', d), (''definition'', df)]) r)) ''name'' = n"
  "get_key (as_retrieved w (assoc_all (pre_update w
      [(''name'', n), (''description'', d), (''definition'', df)]) r)) ''description'' = d"
  "get_key (as_retrieved w (assoc_all (pre_update w
      [(''name'', n), (''description'', d), (''definition'', df)]) r)) ''definition'' = df"
  "get_key (as_retrieved w (assoc_all (pre_update w
      [(''name'', n), (''description'', d), (''definition'', df)]) r)) ''is_active''
     = get_key r ''is_active''"
  by (simp_all add: get_key_as_retrieved assoc_all_def pre_update_def get_key_update
      jdbc_clob_to_str_def)

text \<open>
  Claim C9. Neither \<^verbatim>\<open>delete-segment\<close> nor \<^verbatim>\<open>update-segment\<close> looks at the active
  flag of its target. On a Segment that is already soft-deleted, \<^verbatim>\<open>delete-segment\<close>
  succeeds again: it performs the update (the row is stamped anew), publishes one more
  \<^verbatim>\<open>segment-delete\<close> event carrying the actor, and returns the record, still inactive,
  which is also what a read finds afterwards. \<^verbatim>\<open>update-segment\<close> with arguments that
  pass its checks likewise succeeds on it: it writes name, description and definition,
  publishes a \<^verbatim>\<open>segment-update\<close> event and returns the record, still inactive.
\<close>

theorem soft_delete_not_terminal:
  assumes "sel_one_Segment w [(''id'', VInt i)] = Some s"
    and "get_key s ''is_active'' = VBool False"
  shows "(\<exists>seg w1. delete_segment w (VInt i) actor = (Inr (Some seg), w1)
            \<and> get_key seg ''is_active'' = VBool False
            \<and> get_key seg ''updated_at'' = VInt (clock w)
            \<and> published w1 =
                 published w @ [(''segment-delete'', Some (AList.update ''actor_id'' actor seg))]
            \<and> retrieve_segment w1 (VInt i) = (Inr (Some seg), w1))
    \<and> (get_key body ''id'' = VInt i \<and> string_p (get_key body ''name'') \<and>
        map_p (get_key body ''definition'') \<and> integer_p user_id \<and>
        string_p (get_key body ''revision_message'') \<longrightarrow>
        (\<exists>seg w1. update_segment w body user_id = (Inr (Some seg), w1)
            \<and> get_key seg ''name'' = get_key body ''name''
            \<and> get_key seg ''description'' = get_key body ''description''
            \<and> get_key seg ''definition'' = get_key body ''definition''
            \<and> get_key seg ''is_active'' = VBool False
            \<and> published w1 =
                 published w @
                   [(''segment-update'',
                     Some (AList.update ''revision_message'' (get_key body ''revision_message'')
                             (AList.update ''actor_id'' user_id seg)))]
            \<and> retrieve_segment w1 (VInt i) = (Inr (Some seg), w1)))"
proof -
  obtain r where r: "find (\<lambda>r. map_of r ''id'' = Some (VInt i)) (segment_table w) = Some r"
    and s: "s = post_select r"
    using assms(1) by (rule sel_one_Segment_id)
  have inactive: "get_key r ''is_active'' = VBool False"
    using assms(2) by (simp add: s get_key_post_select)
  have again: "retrieve_segment ((upd_Segment w (VInt i) kvs)\<lparr>published := p\<rparr>) (VInt i) =
      (Inr (Some (as_retrieved w (assoc_all (pre_update w kvs) r))),
       (upd_Segment w (VInt i) kvs)\<lparr>published := p\<rparr>)"
    if "''id'' \<notin> fst ` set kvs" for kvs p
  proof -
    let ?w1 = "(upd_Segment w (VInt i) kvs)\<lparr>published := p\<rparr>"
    have "user_table ?w1 = user_table w"
      by (simp add: upd_Segment_rest)
    then have "as_retrieved ?w1 = as_retrieved w"
      using as_retrieved_cong_world[of ?w1 w] by (simp add: fun_eq_iff)
    then show ?thesis
      using that r
      by (simp add: retrieve_segment_int upd_Segment_table find_id_upd)
  qed
  have del: "\<exists>seg w1. delete_segment w (VInt i) actor = (Inr (Some seg), w1)
            \<and> get_key seg ''is_active'' = VBool False
            \<and> get_key seg ''updated_at'' = VInt (clock w)
            \<and> published w1 =
                 published w @ [(''segment-delete'', Some (AList.update ''actor_id'' actor seg))]
            \<and> retrieve_segment w1 (VInt i) = (Inr (Some seg), w1)"
    using r again[of "[(''is_active'', VBool False)]"]
    by (simp add: delete_segment_int Let_def get_key_soft_deleted assoc_def upd_Segment_rest)
  have upd: "\<exists>seg w1. update_segment w body user_id = (Inr (Some seg), w1)
            \<and> get_key seg ''name'' = get_key body ''name''
            \<and> get_key seg ''description'' = get_key body ''description''
            \<and> get_key seg ''definition'' = get_key body ''definition''
            \<and> get_key seg ''is_active'' = VBool False
            \<and> published w1 =
                 published w @
                   [(''segment-update'',
                     Some (AList.update ''revision_message'' (get_key body ''revision_message'')
                             (AList.update ''actor_id'' user_id seg)))]
            \<and> retrieve_segment w1 (VInt i) = (Inr (Some seg), w1)"
    if ok: "get_key body ''id'' = VInt i" "string_p (get_key body ''name'')"
      "map_p (get_key body ''definition'')" "integer_p user_id"
      "string_p (get_key body ''revision_message'')"
    using r inactive
      again[of "[(''name'', get_key body ''name''), (''description'', get_key body ''description''),
                 (''definition'', get_key body ''definition'')]"]
    by (simp add: update_segment_valid[OF ok] Let_def get_key_updated assoc_def upd_Segment_rest)
  show ?thesis
    using del upd by blast
qed

theorem soft_delete_not_terminal_witness:
  "sel_one_Segment example_world [(''id'', VInt 1)] = Some (post_select (example_row 1 1 ''b'' False))
   \<and> get_key (post_select (example_row 1 1 ''b'' False)) ''is_active'' = VBool False
   \<and> \<not> isl (fst (delete_segment example_world (VInt 1) (VInt 9)))
   \<and> map fst (published (snd (delete_segment example_world (VInt 1) (VInt 9)))) = [''segment-delete'']
   \<and> \<not> isl (fst (update_segment example_world
                     [(''id'', VInt 1), (''name'', VStr ''b2''), (''definition'', VMap []),
                      (''revision_message'', VStr ''again'')] (VInt 9)))"
proof -
  have a: "sel_one_Segment example_world [(''id'', VInt 1)] = Some (post_select (example_row 1 1 ''b'' False))"
    by code_simp
  have b: "get_key (post_select (example_row 1 1 ''b'' False)) ''is_active'' = VBool False"
    by code_simp
  have p: "published example_world = []"
    by (simp add: example_world_def)
  show ?thesis
    using soft_delete_not_terminal [OF a b, of "VInt 9"
        "[(''id'', VInt 1), (''name'', VStr ''b2''), (''definition'', VMap []),
          (''revision_message'', VStr ''again'')]" "VInt 9"] a b p
    by (auto simp add: get_key_def)
qed

section \<open>Who may write\<close>

text \<open>
  Claim C1, as amended. A caller may write a Segment iff the caller is a superuser
  (\<^verbatim>\<open>:write :superuser\<close>), but the store operations do not ask: \<^verbatim>\<open>create-segment\<close>,
  \<^verbatim>\<open>update-segment\<close> and \<^verbatim>\<open>delete-segment\<close> take the acting user's id only, and
  for every caller, superuser or not, they fail exactly when an argument fails its
  precondition (for \<^verbatim>\<open>delete-segment\<close>: when the id is not an integer).
\<close>

theorem store_operations_do_not_check_can_write:
  "(can_write c segment \<longleftrightarrow> superuser c)
   \<and> (isl (fst (create_segment w table_id name description (VInt (caller_id c)) definition))
        \<longleftrightarrow> \<not> (integer_p table_id \<and> string_p name \<and> map_p definition))
   \<and> (isl (fst (update_segment w body (VInt (caller_id c))))
        \<longleftrightarrow> \<not> (integer_p (get_key body ''id'') \<and> string_p (get_key body ''name'') \<and>
               map_p (get_key body ''definition'') \<and> string_p (get_key body ''revision_message'')))
   \<and> (isl (fst (delete_segment w id' (VInt (caller_id c)))) \<longleftrightarrow> \<not> integer_p id')"
proof -
  have "isl (fst (create_segment w table_id name description (VInt (caller_id c)) definition))
        \<longleftrightarrow> \<not> (integer_p table_id \<and> string_p name \<and> map_p definition)"
  proof (cases "integer_p table_id \<and> string_p name \<and> map_p definition")
    case True
    then show ?thesis
      by (simp add: create_segment_valid)
  next
    case False
    then show ?thesis
      by (simp add: create_segment_invalid)
  qed
  moreover have "isl (fst (update_segment w body (VInt (caller_id c))))
        \<longleftrightarrow> \<not> (integer_p (get_key body ''id'') \<and> string_p (get_key body ''name'') \<and>
               map_p (get_key body ''definition'') \<and> string_p (get_key body ''revision_message''))"
  proof (cases "integer_p (get_key body ''id'') \<and> string_p (get_key body ''name'') \<and>
               map_p (get_key body ''definition'') \<and> string_p (get_key body ''revision_message'')")
    case True
    then obtain j where "get_key body ''id'' = VInt j"
      by (auto simp add: integer_p_iff)
    then show ?thesis
      using True by (simp add: update_segment_valid Let_def)
  next
    case False
    then show ?thesis
      by (simp add: update_segment_invalid)
  qed
  moreover have "isl (fst (delete_segment w id' (VInt (caller_id c)))) \<longleftrightarrow> \<not> integer_p id'"
  proof (cases "integer_p id'")
    case True
    then obtain j where "id' = VInt j"
      by (auto simp add: integer_p_iff)
    then show ?thesis
      by (simp add: delete_segment_int Let_def)
  next
    case False
    then show ?thesis
      by (simp add: delete_segment_not_int)
  qed
  ultimately show ?thesis
    by (simp add: can_write_def)
qed

theorem store_operations_do_not_check_can_write_witness:
  "\<not> can_write \<lparr>caller_id = 9, superuser = False\<rparr> (example_row 2 1 ''a'' True)
   \<and> \<not> isl (fst (create_segment example_world (VInt 1) (VStr ''Mine'') VNil
                     (VInt (caller_id \<lparr>caller_id = 9, superuser = False\<rparr>)) (VMap [])))
   \<and> \<not> isl (fst (update_segment example_world
                     [(''id'', VInt 2), (''name'', VStr ''a2''), (''definition'', VMap []),
                      (''revision_message'', VStr ''mine now'')]
                     (VInt (caller_id \<lparr>caller_id = 9, superuser = False\<rparr>))))
   \<and> \<not> isl (fst (delete_segment example_world (VInt 2)
                     (VInt (caller_id \<lparr>caller_id = 9, superuser = False\<rparr>))))"
  using store_operations_do_not_check_can_write
    [of "\<lparr>caller_id = 9, superuser = False\<rparr>" "example_row 2 1 ''a'' True" example_world
        "VInt 1" "VStr ''Mine''" VNil "VMap []"
        "[(''id'', VInt 2), (''name'', VStr ''a2''), (''definition'', VMap []),
          (''revision_message'', VStr ''mine now'')]" "VInt 2"]
  by (simp add: get_key_def)

theorem delete_segment_without_write_counterexample:
  "\<not> can_write \<lparr>caller_id = 9, superuser = False\<rparr> (example_row 2 1 ''a'' True)
   \<and> \<not> isl (fst (delete_segment example_world (VInt 2)
                     (VInt (caller_id \<lparr>caller_id = 9, superuser = False\<rparr>))))
   \<and> map_of (segment_table example_world ! 1) ''is_active'' = Some (VBool True)
   \<and> map_of (segment_table (snd (delete_segment example_world (VInt 2)
                (VInt (caller_id \<lparr>caller_id = 9, superuser = False\<rparr>)))) ! 1) ''is_active''
       = Some (VBool False)
   \<and> snd (delete_segment example_world (VInt 2)
            (VInt (caller_id \<lparr>caller_id = 9, superuser = False\<rparr>))) \<noteq> example_world"
proof -
  let ?d = "delete_segment example_world (VInt 2) (VInt (caller_id \<lparr>caller_id = 9, superuser = False\<rparr>))"
  have a: "\<not> can_write \<lparr>caller_id = 9, superuser = False\<rparr> (example_row 2 1 ''a'' True)"
    by (simp add: can_write_def)
  have b: "\<not> isl (fst ?d)"
    by (simp add: delete_segment_int Let_def)
  have c: "map_of (segment_table example_world ! 1) ''is_active'' = Some (VBool True)"
    by code_simp
  have d: "map_of (segment_table (snd ?d) ! 1) ''is_active'' = Some (VBool False)"
    by code_simp
  have "snd ?d \<noteq> example_world"
    using c d by auto
  then show ?thesis
    using a b c d by simp
qed

section \<open>Physical deletion\<close>

lemma pre_cascade_delete_prod:
  "is_prod w \<Longrightarrow>
   pre_cascade_delete w segment = (Inl (Exception ''deleting a Segment is not supported.''), w)"
  by (simp add: pre_cascade_delete_def)

lemma pre_cascade_delete_test:
  "\<not> is_prod w \<Longrightarrow> pre_cascade_delete w segment =
     (Inr (), cascade_delete_Revision w
                [(''model'', VStr ''Segment''), (''model_id'', get_key segment ''id'')])"
  by (simp add: pre_cascade_delete_def)

lemma run_pre_cascade_delete_prod:
  "is_prod w \<Longrightarrow> segments \<noteq> [] \<Longrightarrow>
   run_pre_cascade_delete w segments = (Inl (Exception ''deleting a Segment is not supported.''), w)"
  by (cases segments) (simp_all add: pre_cascade_delete_prod)

lemma cascade_delete_Revision_idem:
  "cascade_delete_Revision (cascade_delete_Revision w conds) conds = cascade_delete_Revision w conds"
  by (simp add: cascade_delete_Revision_def)

lemma run_pre_cascade_delete_test:
  assumes "\<not> is_prod w" and "\<forall>s\<in>set segments. get_key s ''id'' = v"
  shows "run_pre_cascade_delete w segments =
     (Inr (), if segments = [] then w
              else cascade_delete_Revision w [(''model'', VStr ''Segment''), (''model_id'', v)])"
  using assms
proof (induction segments arbitrary: w)
  case Nil
  show ?case by simp
next
  case (Cons s rest)
  let ?w1 = "cascade_delete_Revision w [(''model'', VStr ''Segment''), (''model_id'', v)]"
  have step: "pre_cascade_delete w s = (Inr (), ?w1)"
    using Cons.prems by (simp add: pre_cascade_delete_test)
  have "\<not> is_prod ?w1"
    using Cons.prems by (simp add: cascade_delete_Revision_def)
  moreover have "\<forall>s\<in>set rest. get_key s ''id'' = v"
    using Cons.prems by simp
  ultimately have "run_pre_cascade_delete ?w1 rest =
     (Inr (), if rest = [] then ?w1
              else cascade_delete_Revision ?w1 [(''model'', VStr ''Segment''), (''model_id'', v)])"
    by (rule Cons.IH)
  then show ?case
    by (simp add: step cascade_delete_Revision_idem)
qed

lemma get_key_id_selected_rows:
  "\<forall>s\<in>set (map post_select (filter (matches [(''id'', v)]) rows)). get_key s ''id'' = v"
proof -
  have "get_key (post_select r) ''id'' = v" if "map_of r ''id'' = Some v" for r
    using that by (simp add: get_key_post_select get_key_Some)
  then show ?thesis
    by (auto simp add: matches_id)
qed

lemma cascade_delete_Segment_prod:
  assumes "is_prod w" and "\<exists>r\<in>set (segment_table w). map_of r ''id'' = Some v"
  shows "cascade_delete_Segment w [(''id'', v)] =
           (Inl (Exception ''deleting a Segment is not supported.''), w)"
proof -
  have "map post_select (filter (matches [(''id'', v)]) (segment_table w)) \<noteq> []"
    using assms(2) by (auto simp add: filter_empty_conv matches_id)
  then show ?thesis
    using assms(1) by (simp add: cascade_delete_Segment_def run_pre_cascade_delete_prod)
qed

lemma cascade_delete_Segment_test:
  assumes "\<not> is_prod w" and "\<exists>r\<in>set (segment_table w). map_of r ''id'' = Some v"
  shows "cascade_delete_Segment w [(''id'', v)] =
     (Inr (), w\<lparr>segment_table := filter (\<lambda>r. map_of r ''id'' \<noteq> Some v) (segment_table w),
               revision_table :=
                 filter (\<lambda>r. \<not> (map_of r ''model'' = Some (VStr ''Segment'') \<and>
                                 map_of r ''model_id'' = Some v)) (revision_table w)\<rparr>)"
proof -
  let ?sel = "map post_select (filter (matches [(''id'', v)]) (segment_table w))"
  have ne: "?sel \<noteq> []"
    using assms(2) by (auto simp add: filter_empty_conv matches_id)
  have "run_pre_cascade_delete w ?sel =
     (Inr (), if ?sel = [] then w
              else cascade_delete_Revision w [(''model'', VStr ''Segment''), (''model_id'', v)])"
    using assms(1) get_key_id_selected_rows by (rule run_pre_cascade_delete_test)
  then have "run_pre_cascade_delete w ?sel =
     (Inr (), cascade_delete_Revision w [(''model'', VStr ''Segment''), (''model_id'', v)])"
    using ne by simp
  then show ?thesis
    by (simp add: cascade_delete_Segment_def cascade_delete_Revision_def matches_id matches_def)
qed

text \<open>
  Claim C3. Physical deletion of a Segment is permitted outside production only. In
  production the hook \<^verbatim>\<open>pre-cascade-delete\<close> throws, so the cascade delete of an
  existing Segment ends with that exception and the world as it was: no row is removed
  and none is marked inactive instead. Outside production the hook removes the revision
  records of the Segment, and the cascade delete then removes the Segment's row.
\<close>

theorem physical_delete_outside_production_only:
  "(is_prod w \<longrightarrow>
      pre_cascade_delete w segment = (Inl (Exception ''deleting a Segment is not supported.''), w))
   \<and> (is_prod w \<and> (\<exists>r\<in>set (segment_table w). map_of r ''id'' = Some v) \<longrightarrow>
      cascade_delete_Segment w [(''id'', v)]
        = (Inl (Exception ''deleting a Segment is not supported.''), w))
   \<and> (\<not> is_prod w \<longrightarrow>
      pre_cascade_delete w segment =
        (Inr (), w\<lparr>revision_table :=
                     filter (\<lambda>r. \<not> (map_of r ''model'' = Some (VStr ''Segment'') \<and>
                                     map_of r ''model_id'' = Some (get_key segment ''id'')))
                       (revision_table w)\<rparr>))
   \<and> (\<not> is_prod w \<and> (\<exists>r\<in>set (segment_table w). map_of r ''id'' = Some v) \<longrightarrow>
      cascade_delete_Segment w [(''id'', v)] =
        (Inr (), w\<lparr>segment_table := filter (\<lambda>r. map_of r ''id'' \<noteq> Some v) (segment_table w),
                  revision_table :=
                    filter (\<lambda>r. \<not> (map_of r ''model'' = Some (VStr ''Segment'') \<and>
                                    map_of r ''model_id'' = Some v)) (revision_table w)\<rparr>))"
  by (simp add: pre_cascade_delete_prod cascade_delete_Segment_prod cascade_delete_Segment_test
      pre_cascade_delete_test cascade_delete_Revision_def matches_def)

theorem physical_delete_outside_production_only_witness:
  "is_prod example_world
   \<and> (\<exists>r\<in>set (segment_table example_world). map_of r ''id'' = Some (VInt 1))
   \<and> cascade_delete_Segment example_world [(''id'', VInt 1)]
       = (Inl (Exception ''deleting a Segment is not supported.''), example_world)
   \<and> \<not> is_prod (example_world\<lparr>is_prod := False\<rparr>)
   \<and> cascade_delete_Segment (example_world\<lparr>is_prod := False\<rparr>) [(''id'', VInt 1)]
       = (Inr (), example_world
            \<lparr>is_prod := False,
             segment_table := [example_row 2 1 ''a'' True, example_row 3 2 ''c'' True],
             revision_table := [[(''model'', VStr ''Card''), (''model_id'', VInt 1)],
                                [(''model'', VStr ''Segment''), (''model_id'', VInt 2)]]\<rparr>)"
proof -
  have p: "is_prod example_world"
    by (simp add: example_world_def)
  have e: "\<exists>r\<in>set (segment_table example_world). map_of r ''id'' = Some (VInt 1)"
    by (simp add: example_world_def example_row_def)
  have t: "segment_table (example_world\<lparr>is_prod := False\<rparr>) = segment_table example_world"
    by simp
  have f: "filter (\<lambda>r. map_of r ''id'' \<noteq> Some (VInt 1)) (segment_table example_world)
             = [example_row 2 1 ''a'' True, example_row 3 2 ''c'' True]"
    by (simp add: example_world_def example_row_def)
  have g: "filter (\<lambda>r. \<not> (map_of r ''model'' = Some (VStr ''Segment'') \<and>
                           map_of r ''model_id'' = Some (VInt 1))) (revision_table example_world)
             = [[(''model'', VStr ''Card''), (''model_id'', VInt 1)],
                [(''model'', VStr ''Segment''), (''model_id'', VInt 2)]]"
    by (simp add: example_world_def)
  show ?thesis
    using physical_delete_outside_production_only [of example_world "[]" "VInt 1"]
      physical_delete_outside_production_only [of "example_world\<lparr>is_prod := False\<rparr>" "[]" "VInt 1"]
      p e f g
    by simp
qed

section \<open>Serializing an instance for a revision\<close>

lemma serialize_instance_filter:
  "serialize_instance instance =
     filter (\<lambda>(k, v). k \<noteq> ''created_at'' \<and> k \<noteq> ''updated_at'' \<and> \<not> delay_p v) instance"
  by (auto simp add: serialize_instance_def filter_vals_def AList.delete_eq intro: filter_cong)

lemma distinct_post_select: "distinct (map fst row) \<Longrightarrow> distinct (map fst (post_select row))"
  by (simp add: post_select_def distinct_update)

lemma creator_of_post_select:
  assumes "distinct (map fst row)" and "(''creator'', v) \<in> set (post_select row)"
  shows "v = VDelay (get_key row ''creator_id'')"
proof -
  have "map_of (post_select row) ''creator'' = Some v"
    using assms distinct_post_select by (simp add: map_of_eq_Some_iff)
  then show ?thesis
    by (simp add: post_select_def update_conv')
qed

lemma map_of_filter_kept:
  "map_of xs k = Some v \<Longrightarrow> P (k, v) \<Longrightarrow> map_of (filter P xs) k = Some v"
  by (induction xs) (auto split: if_splits)

lemma delayed_key_absent:
  assumes "distinct (map fst instance)" and "(k, v) \<in> set instance" and "delay_p v"
  shows "k \<notin> fst ` set (serialize_instance instance)"
proof
  assume "k \<in> fst ` set (serialize_instance instance)"
  then obtain v' where v': "(k, v') \<in> set instance" and nd: "\<not> delay_p v'"
    by (auto simp add: serialize_instance_filter)
  have "v' = v"
    using assms(1) v' assms(2) by (rule eq_key_imp_eq_value)
  then show False
    using nd assms(3) by simp
qed

lemma serialize_instance_ignores_delays:
  "serialize_instance (map (\<lambda>(k, v). (k, if delay_p v then VDelay (f v) else v)) instance)
     = serialize_instance instance"
  by (induction "instance") (auto simp add: serialize_instance_filter)

lemma serialized_creator_of_hydrated:
  "map_of (serialize_instance (as_retrieved w row)) ''creator'' =
     Some (if truthy (get_key row ''creator_id'')
           then sel_one_User w (get_key row ''creator_id'') else VNil)"
proof -
  let ?u = "if truthy (get_key row ''creator_id'')
            then sel_one_User w (get_key row ''creator_id'') else VNil"
  have "get_key (post_select row) ''creator'' = VDelay (get_key row ''creator_id'')"
    by (simp add: get_key_post_select)
  then have "as_retrieved w row = AList.update ''creator'' ?u (post_select row)"
    by (simp add: as_retrieved_def hydrate1_def)
  then have m: "map_of (as_retrieved w row) ''creator'' = Some ?u"
    by (simp add: update_conv')
  have "\<not> delay_p ?u"
    by (simp add: not_delay_sel_one_User)
  then show ?thesis
    unfolding serialize_instance_filter
    using m by (intro map_of_filter_kept) simp_all
qed

text \<open>
  Claim C8, as amended. \<^verbatim>\<open>serialize-instance\<close> returns the entries of the instance,
  in their order, except \<^verbatim>\<open>created_at\<close>, \<^verbatim>\<open>updated_at\<close> and every entry whose value
  is a delay at that moment. Such an entry is removed, not forced: no delay is left in
  the result, the key of a delay-valued entry of a map (each key once) is absent from it
  rather than bound to what the delay would resolve to, and the result is the same
  whatever the delays of the instance hold. So for an instance as selected, where
  \<^verbatim>\<open>post-select\<close> has attached the \<^verbatim>\<open>creator\<close> delay, the serialization has no
  \<^verbatim>\<open>creator\<close>. A field that was lazily resolved but has been forced already is no
  delay and stays: for a hydrated instance, as \<^verbatim>\<open>retrieve-segment\<close> returns it, the
  serialization keeps \<^verbatim>\<open>creator\<close> with the resolved user.
\<close>

theorem serialize_instance_drops_timestamps_and_delays:
  "serialize_instance instance =
     filter (\<lambda>(k, v). k \<noteq> ''created_at'' \<and> k \<noteq> ''updated_at'' \<and> \<not> delay_p v) instance
   \<and> set (serialize_instance instance) =
       {(k, v). (k, v) \<in> set instance \<and> k \<noteq> ''created_at'' \<and> k \<noteq> ''updated_at'' \<and> \<not> delay_p v}
   \<and> (\<forall>(k, v)\<in>set (serialize_instance instance). \<not> delay_p v)
   \<and> (distinct (map fst instance) \<longrightarrow>
        (\<forall>k v. (k, v) \<in> set instance \<and> delay_p v \<longrightarrow>
           k \<notin> fst ` set (serialize_instance instance)))
   \<and> serialize_instance (map (\<lambda>(k, v). (k, if delay_p v then VDelay (f v) else v)) instance)
       = serialize_instance instance
   \<and> (distinct (map fst row) \<longrightarrow>
        ''creator'' \<notin> fst ` set (serialize_instance (post_select row))
        \<and> ''created_at'' \<notin> fst ` set (serialize_instance (post_select row))
        \<and> ''updated_at'' \<notin> fst ` set (serialize_instance (post_select row)))
   \<and> map_of (serialize_instance (as_retrieved w row)) ''creator'' =
       Some (if truthy (get_key row ''creator_id'')
             then sel_one_User w (get_key row ''creator_id'') else VNil)"
proof -
  have a: "''creator'' \<notin> fst ` set (serialize_instance (post_select row))" if "distinct (map fst row)"
  proof
    assume "''creator'' \<in> fst ` set (serialize_instance (post_select row))"
    then obtain v where v: "(''creator'', v) \<in> set (post_select row)" and nd: "\<not> delay_p v"
      by (auto simp add: serialize_instance_filter)
    have "v = VDelay (get_key row ''creator_id'')"
      using that v by (rule creator_of_post_select)
    then show False
      using nd by simp
  qed
  have b: "\<forall>k v. (k, v) \<in> set instance \<and> delay_p v \<longrightarrow>
           k \<notin> fst ` set (serialize_instance instance)" if "distinct (map fst instance)"
    using that delayed_key_absent by blast
  have c: "''created_at'' \<notin> fst ` set (serialize_instance (post_select row))"
    "''updated_at'' \<notin> fst ` set (serialize_instance (post_select row))"
    by (auto simp add: serialize_instance_filter)
  have d: "set (serialize_instance instance) =
       {(k, v). (k, v) \<in> set instance \<and> k \<noteq> ''created_at'' \<and> k \<noteq> ''updated_at'' \<and> \<not> delay_p v}"
    "\<forall>(k, v)\<in>set (serialize_instance instance). \<not> delay_p v"
    by (auto simp add: serialize_instance_filter)
  show ?thesis
    using a b c d serialize_instance_filter[of "instance"]
      serialize_instance_ignores_delays[of f "instance"] serialized_creator_of_hydrated[of w row]
    by blast
qed

theorem serialize_instance_drops_timestamps_and_delays_witness:
  "distinct (map fst (example_row 2 1 ''a'' True))
   \<and> distinct (map fst (post_select (example_row 2 1 ''a'' True)))
   \<and> (''creator'', VDelay (VInt 7)) \<in> set (post_select (example_row 2 1 ''a'' True))
   \<and> delay_p (VDelay (VInt 7))
   \<and> serialize_instance (post_select (example_row 2 1 ''a'' True)) =
       [(''table_id'', VInt 1), (''creator_id'', VInt 7), (''name'', VStr ''a''),
        (''description'', VNil), (''is_active'', VBool True),
        (''definition'', VMap [(''field'', VStr ''status'')]), (''id'', VInt 2)]
   \<and> ''creator'' \<notin> fst ` set (serialize_instance (post_select (example_row 2 1 ''a'' True)))
   \<and> map_of (serialize_instance (as_retrieved example_world (example_row 2 1 ''a'' True))) ''creator''
       = Some (VMap [(''id'', VInt 7), (''is_superuser'', VBool False)])"
proof -
  have d: "distinct (map fst (example_row 2 1 ''a'' True))"
    by (simp add: example_row_def)
  have d': "distinct (map fst (post_select (example_row 2 1 ''a'' True)))"
    using d by (rule distinct_post_select)
  have m: "(''creator'', VDelay (VInt 7)) \<in> set (post_select (example_row 2 1 ''a'' True))"
    by (simp add: example_row_def post_select_def get_key_def jdbc_clob_to_str_def)
  have e: "filter (\<lambda>(k, v). k \<noteq> ''created_at'' \<and> k \<noteq> ''updated_at'' \<and> \<not> delay_p v)
             (post_select (example_row 2 1 ''a'' True)) =
       [(''table_id'', VInt 1), (''creator_id'', VInt 7), (''name'', VStr ''a''),
        (''description'', VNil), (''is_active'', VBool True),
        (''definition'', VMap [(''field'', VStr ''status'')]), (''id'', VInt 2)]"
    by (simp add: example_row_def post_select_def get_key_def jdbc_clob_to_str_def)
  have c: "get_key (example_row 2 1 ''a'' True) ''creator_id'' = VInt 7"
    by (simp add: example_row_def get_key_def)
  have u: "sel_one_User example_world (VInt 7) = VMap [(''id'', VInt 7), (''is_superuser'', VBool False)]"
    by code_simp
  show ?thesis
    using serialize_instance_drops_timestamps_and_delays
      [of "post_select (example_row 2 1 ''a'' True)" id "example_row 2 1 ''a'' True" example_world]
      d d' m e c u
    by simp
qed

theorem serialize_instance_keeps_resolved_creator_counterexample:
  "retrieve_segment example_world (VInt 2)
     = (Inr (Some (as_retrieved example_world (example_row 2 1 ''a'' True))), example_world)
   \<and> serialize_instance (as_retrieved example_world (example_row 2 1 ''a'' True)) =
       [(''table_id'', VInt 1), (''creator_id'', VInt 7), (''name'', VStr ''a''),
        (''description'', VNil), (''is_active'', VBool True),
        (''definition'', VMap [(''field'', VStr ''status'')]), (''id'', VInt 2),
        (''creator'', VMap [(''id'', VInt 7), (''is_superuser'', VBool False)])]
   \<and> ''creator'' \<in> fst ` set (serialize_instance (as_retrieved example_world (example_row 2 1 ''a'' True)))"
proof -
  have r: "retrieve_segment example_world (VInt 2)
     = (Inr (Some (as_retrieved example_world (example_row 2 1 ''a'' True))), example_world)"
    by code_simp
  have s: "serialize_instance (as_retrieved example_world (example_row 2 1 ''a'' True)) =
       [(''table_id'', VInt 1), (''creator_id'', VInt 7), (''name'', VStr ''a''),
        (''description'', VNil), (''is_active'', VBool True),
        (''definition'', VMap [(''field'', VStr ''status'')]), (''id'', VInt 2),
        (''creator'', VMap [(''id'', VInt 7), (''is_superuser'', VBool False)])]"
    by code_simp
  show ?thesis
    using r by (simp add: s)
qed

end
